theory Spec2Isabelle
  imports Main
begin

section \<open>Strings and the Unicode data that \<open>normalize\<close> reads\<close>

text \<open>
  A JavaScript string is modelled as the list of its Unicode code points. The functions of
  \<^verbatim>\<open>src/LolSkinsTracker.tsx\<close> that look inside a string (\<^verbatim>\<open>toLowerCase\<close>,
  \<^verbatim>\<open>normalize("NFD")\<close>, the two \<^verbatim>\<open>replace\<close> calls, \<^verbatim>\<open>trim\<close>) all work code
  point by code point; the second regular expression has no \<^verbatim>\<open>u\<close> flag, but every
  character it names is a single UTF-16 unit, so it removes the same code points.
\<close>

type_synonym codepoint = nat
type_synonym jstring = "codepoint list"

definition ustr :: "string \<Rightarrow> jstring" where
  "ustr s = map of_char s"

text \<open>
  \<^verbatim>\<open>toLowerCase\<close>, \<^verbatim>\<open>normalize("NFD")\<close> and \<^verbatim>\<open>\p{Diacritic}\<close> are defined by the
  Unicode Character Database, which is no part of the repository; it is a parameter of the
  model:
  \<^item> \<open>lower_of before c after\<close> is what \<^verbatim>\<open>toLowerCase\<close> makes of the code point \<open>c\<close>
    that stands between the strings \<open>before\<close> and \<open>after\<close> (its lowercase mapping, which
    may have several code points; the context matters for the capital sigma only);
  \<^item> \<open>decomp_of c\<close> is the full canonical decomposition of \<open>c\<close>;
  \<^item> \<open>ccc_of c\<close> is its canonical combining class, 0 for a starter;
  \<^item> \<open>diacritic_of c\<close> says whether it has the property Diacritic.
\<close>

record unicode_data =
  lower_of :: "jstring \<Rightarrow> codepoint \<Rightarrow> jstring \<Rightarrow> jstring"
  decomp_of :: "codepoint \<Rightarrow> codepoint list"
  ccc_of :: "codepoint \<Rightarrow> nat"
  diacritic_of :: "codepoint \<Rightarrow> bool"

fun lower_from :: "unicode_data \<Rightarrow> jstring \<Rightarrow> jstring \<Rightarrow> jstring" where
  "lower_from U before [] = []"
| "lower_from U before (c # after) =
     lower_of U before c after @ lower_from U (before @ [c]) after"

definition toLowerCase :: "unicode_data \<Rightarrow> jstring \<Rightarrow> jstring" where
  "toLowerCase U s = lower_from U [] s"

text \<open>
  The canonical ordering step of NFD: a combining mark moves left over every neighbour
  of a greater combining class. \<open>reorder_ins\<close> adds the next code point to the output
  built so far, which it holds last code point first.
\<close>

fun reorder_ins :: "unicode_data \<Rightarrow> codepoint \<Rightarrow> codepoint list \<Rightarrow> codepoint list" where
  "reorder_ins U c [] = [c]"
| "reorder_ins U c (p # ps) =
     (if ccc_of U c \<noteq> 0 \<and> ccc_of U c < ccc_of U p then p # reorder_ins U c ps
      else c # p # ps)"

definition canonical_order :: "unicode_data \<Rightarrow> jstring \<Rightarrow> jstring" where
  "canonical_order U s = rev (fold (reorder_ins U) s [])"

definition NFD :: "unicode_data \<Rightarrow> jstring \<Rightarrow> jstring" where
  "NFD U s = canonical_order U (concat (map (decomp_of U) s))"

text \<open>
  The class \<^verbatim>\<open>\s\<close> of a JavaScript regular expression, which is also what
  \<^verbatim>\<open>trim\<close> removes: WhiteSpace and LineTerminator of ECMAScript (complete, for all of
  Unicode).
\<close>

definition is_space :: "codepoint \<Rightarrow> bool" where
  "is_space c \<longleftrightarrow>
     c \<in> {0x9, 0xA, 0xB, 0xC, 0xD, 0x20, 0xA0, 0x1680, 0x2028, 0x2029, 0x202F, 0x205F,
          0x3000, 0xFEFF} \<or> (0x2000 \<le> c \<and> c \<le> 0x200A)"

text \<open>The character class \<^verbatim>\<open>['`.\-\s]\<close>.\<close>

definition punct_or_space :: "codepoint \<Rightarrow> bool" where
  "punct_or_space c \<longleftrightarrow> c \<in> {0x27, 0x60, 0x2E, 0x2D} \<or> is_space c"

text \<open>The body of \<^verbatim>\<open>normalize\<close>, for the Unicode data \<open>U\<close> of the platform.\<close>

definition normalize_with :: "unicode_data \<Rightarrow> jstring \<Rightarrow> jstring" where
  "normalize_with U s =
     filter (\<lambda>c. \<not> punct_or_space c)
       (filter (\<lambda>c. \<not> diacritic_of U c)
         (NFD U (toLowerCase U s)))"

text \<open>
  Where a concrete value is computed, the Unicode data are these rows of the database
  (Unicode 15.0):
  \<^item> U+0000 .. U+00FF (Basic Latin and Latin-1 Supplement),
  \<^item> the seven combining marks that the canonical decompositions of those code points
    produce (U+0300, U+0301, U+0302, U+0303, U+0308, U+030A, U+0327),
  \<^item> the Tibetan vowel signs U+0F71 and U+0F72.
  Every other code point is carried through unchanged, as a starter without case mapping,
  decomposition or the Diacritic property. \<open>normalize\<close> is \<open>normalize_with\<close> at these
  rows; it is the function of the source on the strings of this range.
\<close>

definition lower_cp :: "codepoint \<Rightarrow> codepoint" where
  "lower_cp c =
     (if (0x41 \<le> c \<and> c \<le> 0x5A) \<or> (0xC0 \<le> c \<and> c \<le> 0xDE \<and> c \<noteq> 0xD7)
      then c + 0x20 else c)"

definition decomposition_table :: "(codepoint \<times> codepoint list) list" where
  "decomposition_table =
    [(0xC0, [0x41, 0x300]), (0xC1, [0x41, 0x301]), (0xC2, [0x41, 0x302]), (0xC3, [0x41, 0x303]),
     (0xC4, [0x41, 0x308]), (0xC5, [0x41, 0x30A]), (0xC7, [0x43, 0x327]), (0xC8, [0x45, 0x300]),
     (0xC9, [0x45, 0x301]), (0xCA, [0x45, 0x302]), (0xCB, [0x45, 0x308]), (0xCC, [0x49, 0x300]),
     (0xCD, [0x49, 0x301]), (0xCE, [0x49, 0x302]), (0xCF, [0x49, 0x308]), (0xD1, [0x4E, 0x303]),
     (0xD2, [0x4F, 0x300]), (0xD3, [0x4F, 0x301]), (0xD4, [0x4F, 0x302]), (0xD5, [0x4F, 0x303]),
     (0xD6, [0x4F, 0x308]), (0xD9, [0x55, 0x300]), (0xDA, [0x55, 0x301]), (0xDB, [0x55, 0x302]),
     (0xDC, [0x55, 0x308]), (0xDD, [0x59, 0x301]), (0xE0, [0x61, 0x300]), (0xE1, [0x61, 0x301]),
     (0xE2, [0x61, 0x302]), (0xE3, [0x61, 0x303]), (0xE4, [0x61, 0x308]), (0xE5, [0x61, 0x30A]),
     (0xE7, [0x63, 0x327]), (0xE8, [0x65, 0x300]), (0xE9, [0x65, 0x301]), (0xEA, [0x65, 0x302]),
     (0xEB, [0x65, 0x308]), (0xEC, [0x69, 0x300]), (0xED, [0x69, 0x301]), (0xEE, [0x69, 0x302]),
     (0xEF, [0x69, 0x308]), (0xF1, [0x6E, 0x303]), (0xF2, [0x6F, 0x300]), (0xF3, [0x6F, 0x301]),
     (0xF4, [0x6F, 0x302]), (0xF5, [0x6F, 0x303]), (0xF6, [0x6F, 0x308]), (0xF9, [0x75, 0x300]),
     (0xFA, [0x75, 0x301]), (0xFB, [0x75, 0x302]), (0xFC, [0x75, 0x308]), (0xFD, [0x79, 0x301]),
     (0xFF, [0x79, 0x308])]"

definition decompose :: "codepoint \<Rightarrow> codepoint list" where
  "decompose c = (case map_of decomposition_table c of Some d \<Rightarrow> d | None \<Rightarrow> [c])"

text \<open>Canonical combining class; 0 marks a starter.\<close>

definition ccc :: "codepoint \<Rightarrow> nat" where
  "ccc c =
     (if c \<in> {0x300, 0x301, 0x302, 0x303, 0x308, 0x30A} then 230
      else if c = 0x327 then 202
      else if c = 0xF71 then 129
      else if c = 0xF72 then 130
      else 0)"

definition Diacritic :: "codepoint \<Rightarrow> bool" where
  "Diacritic c \<longleftrightarrow>
     c \<in> {0x5E, 0x60, 0xA8, 0xAF, 0xB4, 0xB7, 0xB8,
          0x300, 0x301, 0x302, 0x303, 0x308, 0x30A, 0x327}"

definition ucd_rows :: unicode_data where
  "ucd_rows =
     \<lparr>lower_of = (\<lambda>before c after. [lower_cp c]), decomp_of = decompose, ccc_of = ccc,
      diacritic_of = Diacritic\<rparr>"

definition normalize :: "jstring \<Rightarrow> jstring" where
  "normalize s = normalize_with ucd_rows s"

definition nameToId :: "jstring \<Rightarrow> jstring" where
  "nameToId name = ustr ''champ_'' @ normalize name"

definition trim :: "jstring \<Rightarrow> jstring" where
  "trim s = rev (dropWhile is_space (rev (dropWhile is_space s)))"

section \<open>Fresh identifiers\<close>

text \<open>
  \<^verbatim>\<open>uid()\<close> draws a random identifier. The model reads the identifiers from a source
  \<open>g\<close>, the sequence of the values that the successive calls return: a call returns
  \<open>g 0\<close> and leaves the rest of the sequence.
\<close>

type_synonym uid_source = "nat \<Rightarrow> jstring"

definition uid :: "uid_source \<Rightarrow> jstring \<times> uid_source" where
  "uid g = (g 0, \<lambda>n. g (Suc n))"

section \<open>Skins and champions\<close>

record Skin =
  skin_id :: jstring
  skin_name :: jstring
  checked :: bool

record Champion =
  champ_id :: jstring
  champ_name :: jstring
  skins :: "Skin list"

subsection \<open>\<^verbatim>\<open>mergeSkins\<close>\<close>

text \<open>
  \<^verbatim>\<open>new Map(c.skins.map((s) => [normalize(s.name), s]))\<close>: the entries are set one after
  the other, so a later skin replaces an earlier one under the same key.
\<close>

definition existingByName_of :: "Skin list \<Rightarrow> (jstring \<rightharpoonup> Skin)" where
  "existingByName_of ss = fold (\<lambda>s m. m(normalize (skin_name s) \<mapsto> s)) ss Map.empty"

text \<open>The first loop, over the fetched names; \<open>merged\<close> is the array being filled.\<close>

fun fetched_loop ::
  "(jstring \<rightharpoonup> Skin) \<Rightarrow> jstring list \<Rightarrow> Skin list \<Rightarrow> uid_source \<Rightarrow> Skin list \<times> uid_source"
where
  "fetched_loop existingByName [] merged g = (merged, g)"
| "fetched_loop existingByName (name # names) merged g =
     (case existingByName (normalize name) of
        Some existing \<Rightarrow> fetched_loop existingByName names (merged @ [existing]) g
      | None \<Rightarrow>
          (case uid g of
             (i, g') \<Rightarrow>
               fetched_loop existingByName names
                 (merged @ [\<lparr>skin_id = i, skin_name = name, checked = False\<rparr>]) g'))"

text \<open>The second loop, over the champion's own skins.\<close>

fun custom_loop ::
  "(jstring \<rightharpoonup> Skin) \<Rightarrow> jstring list \<Rightarrow> Skin list \<Rightarrow> Skin list \<Rightarrow> Skin list"
where
  "custom_loop existingByName fetchedNames [] merged = merged"
| "custom_loop existingByName fetchedNames (s # ss) merged =
     (if \<not> (existingByName (normalize (skin_name s)) \<noteq> None)
         \<and> \<not> list_ex (\<lambda>n. normalize n = normalize (skin_name s)) fetchedNames
      then custom_loop existingByName fetchedNames ss (merged @ [s])
      else custom_loop existingByName fetchedNames ss merged)"

definition mergeSkins :: "Champion \<Rightarrow> jstring list \<Rightarrow> uid_source \<Rightarrow> Champion \<times> uid_source" where
  "mergeSkins c fetchedNames g =
     (let existingByName = existingByName_of (skins c) in
      case fetched_loop existingByName fetchedNames [] g of
        (merged, g') \<Rightarrow>
          (c\<lparr>skins := custom_loop existingByName fetchedNames (skins c) merged\<rparr>, g'))"

subsection \<open>Store mutations\<close>

text \<open>
  \<^verbatim>\<open>setChampions((prev) => prev.map((c) => (c.id === id ? updater(c) : c)))\<close>. The
  updater may call \<^verbatim>\<open>uid()\<close>, so the identifier source is passed along the array.
\<close>

fun updateChampion ::
  "jstring \<Rightarrow> (Champion \<Rightarrow> uid_source \<Rightarrow> Champion \<times> uid_source) \<Rightarrow> Champion list \<Rightarrow> uid_source
     \<Rightarrow> Champion list \<times> uid_source"
where
  "updateChampion cid updater [] g = ([], g)"
| "updateChampion cid updater (c # cs) g =
     (case (if champ_id c = cid then updater c g else (c, g)) of
        (c', g') \<Rightarrow>
          (case updateChampion cid updater cs g' of
             (cs', g'') \<Rightarrow> (c' # cs', g'')))"

definition addSkin ::
  "jstring \<Rightarrow> jstring \<Rightarrow> Champion list \<Rightarrow> uid_source \<Rightarrow> Champion list \<times> uid_source"
where
  "addSkin championId name champions g =
     (let trimmed = trim name in
      if trimmed = [] then (champions, g)
      else
        updateChampion championId
          (\<lambda>c h. case uid h of
                   (i, h') \<Rightarrow>
                     (c\<lparr>skins := skins c @ [\<lparr>skin_id = i, skin_name = trimmed, checked = False\<rparr>]\<rparr>,
                      h'))
          champions g)"

subsection \<open>Data Dragon\<close>

record DDragonSkin =
  dd_skin_id :: jstring
  skin_num :: int
  dd_skin_name :: jstring
  chromas :: bool

record DDragonChampion =
  dd_id :: jstring
  dd_name :: jstring
  dd_skins :: "DDragonSkin list"

record DDragonChampionDetail =
  dd_type :: jstring
  dd_format :: jstring
  dd_version :: jstring
  dd_data :: "(jstring \<times> DDragonChampion) list"

text \<open>
  What a \<^verbatim>\<open>fetch\<close> of a champion file gives: the request fails, or a response arrives
  with its \<^verbatim>\<open>ok\<close> flag and a body; the body is \<open>None\<close> when \<^verbatim>\<open>res.json()\<close> rejects
  or the document is no \<^verbatim>\<open>DDragonChampionDetail\<close>, so that reading it throws. The network is
  a function from the URL to that outcome.
\<close>

datatype fetch_result = NetworkError | Response bool "DDragonChampionDetail option"

type_synonym network = "jstring \<Rightarrow> fetch_result"

definition DDRAGON_LOCALE :: jstring where
  "DDRAGON_LOCALE = ustr ''fr_FR''"

definition champion_url :: "jstring \<Rightarrow> jstring \<Rightarrow> jstring \<Rightarrow> jstring" where
  "champion_url version locale key =
     ustr ''https://ddragon.leagueoflegends.com/cdn/'' @ version @ ustr ''/data/'' @ locale
       @ ustr ''/champion/'' @ key @ ustr ''.json''"

definition fetchChampionSkins :: "network \<Rightarrow> jstring \<Rightarrow> jstring \<Rightarrow> jstring \<Rightarrow> jstring list" where
  "fetchChampionSkins net version locale key =
     (case net (champion_url version locale key) of
        NetworkError \<Rightarrow> []
      | Response ok body \<Rightarrow>
          if \<not> ok then []
          else
            (case body of
               None \<Rightarrow> []
             | Some detail \<Rightarrow>
                 (case map_of (dd_data detail) key of
                    None \<Rightarrow> []
                  | Some champ \<Rightarrow>
                      map (\<lambda>s. trim (dd_skin_name s))
                        (filter (\<lambda>s. skin_num s > 0) (dd_skins champ)))))"

text \<open>
  \<^verbatim>\<open>ddVersion\<close> and \<^verbatim>\<open>ddKeyMap\<close> are \<^verbatim>\<open>null\<close> until the bootstrap has filled them.
  \<open>champions\<close> is the store at the moment the update is applied.
\<close>

definition prefillChampion ::
  "network \<Rightarrow> jstring option \<Rightarrow> (jstring \<rightharpoonup> jstring) option \<Rightarrow> Champion \<Rightarrow> Champion list
     \<Rightarrow> uid_source \<Rightarrow> Champion list \<times> uid_source"
where
  "prefillChampion net ddVersion ddKeyMap c champions g =
     (case ddVersion of
        None \<Rightarrow> (champions, g)
      | Some version \<Rightarrow>
          if version = [] then (champions, g)
          else
            (case ddKeyMap of
               None \<Rightarrow> (champions, g)
             | Some keyMap \<Rightarrow>
                 (case keyMap (normalize (champ_name c)) of
                    None \<Rightarrow> (champions, g)
                  | Some key \<Rightarrow>
                      if key = [] then (champions, g)
                      else
                        (let names = fetchChampionSkins net version DDRAGON_LOCALE key in
                         if length names = 0 then (champions, g)
                         else
                           updateChampion (champ_id c) (\<lambda>curr. mergeSkins curr names)
                             champions g))))"

section \<open>Documents read from storage and from import files\<close>

text \<open>
  \<^verbatim>\<open>loadInitialChampions\<close> and \<^verbatim>\<open>importJson\<close> read the result of \<^verbatim>\<open>JSON.parse\<close>, which
  has the declared type only by a cast, and both test the shape at run time. They are
  modelled over JavaScript values. An object lists each of its properties once. Numbers
  matter to the code only through being zero or not; integers stand for them.
\<close>

datatype jsval =
    JUndefined
  | JNull
  | JBool bool
  | JNum int
  | JStr jstring
  | JArr "jsval list"
  | JObj "(jstring \<times> jsval) list"

text \<open>Reading a property of \<^verbatim>\<open>null\<close> or \<^verbatim>\<open>undefined\<close> throws a TypeError.\<close>

fun nullish :: "jsval \<Rightarrow> bool" where
  "nullish JUndefined = True"
| "nullish JNull = True"
| "nullish v = False"

text \<open>
  \<open>get v k\<close> is \<^verbatim>\<open>v.k\<close> for a \<open>v\<close> that is not nullish and for the four property
  names the code reads (\<^verbatim>\<open>id\<close>, \<^verbatim>\<open>name\<close>, \<^verbatim>\<open>skins\<close>, \<^verbatim>\<open>checked\<close>), none of which
  a string, number, boolean or array has.
\<close>

fun get :: "jsval \<Rightarrow> jstring \<Rightarrow> jsval" where
  "get (JObj kvs) k = (case map_of kvs k of Some v \<Rightarrow> v | None \<Rightarrow> JUndefined)"
| "get v k = JUndefined"

fun truthy :: "jsval \<Rightarrow> bool" where
  "truthy JUndefined = False"
| "truthy JNull = False"
| "truthy (JBool b) = b"
| "truthy (JNum n) = (n \<noteq> 0)"
| "truthy (JStr s) = (s \<noteq> [])"
| "truthy (JArr xs) = True"
| "truthy (JObj kvs) = True"

fun isArray :: "jsval \<Rightarrow> bool" where
  "isArray (JArr xs) = True"
| "isArray v = False"

fun elements :: "jsval \<Rightarrow> jsval list" where
  "elements (JArr xs) = xs"
| "elements v = []"

text \<open>
  \<^verbatim>\<open>for (const c of parsed)\<close>: an array gives its elements, a string its code points as
  one-character strings, anything else is not iterable (\<open>None\<close>: a TypeError).
\<close>

fun iterate :: "jsval \<Rightarrow> jsval list option" where
  "iterate (JArr xs) = Some xs"
| "iterate (JStr s) = Some (map (\<lambda>c. JStr [c]) s)"
| "iterate v = None"

text \<open>
  A \<^verbatim>\<open>Map\<close> from \<^verbatim>\<open>c.name\<close> to \<^verbatim>\<open>c\<close>, filled in order (\<open>None\<close>: some \<open>c\<close> is
  nullish). A \<^verbatim>\<open>Map\<close> compares arrays and objects by identity, and no array or object
  that is looked up is the one that was stored; \<open>map_get\<close> therefore finds nothing under
  such a key.
\<close>

fun index_by_name :: "jsval list \<Rightarrow> (jsval \<rightharpoonup> jsval) \<Rightarrow> (jsval \<rightharpoonup> jsval) option" where
  "index_by_name [] m = Some m"
| "index_by_name (c # cs) m =
     (if nullish c then None else index_by_name cs (m(get c (ustr ''name'') \<mapsto> c)))"

fun map_get :: "(jsval \<rightharpoonup> jsval) \<Rightarrow> jsval \<Rightarrow> jsval" where
  "map_get m (JArr xs) = JUndefined"
| "map_get m (JObj kvs) = JUndefined"
| "map_get m k = (case m k of Some v \<Rightarrow> v | None \<Rightarrow> JUndefined)"

text \<open>
  \<^verbatim>\<open>skins.map((s) => ({ id: s.id || uid(), name: s.name, checked: !!s.checked }))\<close>, the
  expression that both functions apply to a stored skin array.
\<close>

fun coerce_skins :: "jsval list \<Rightarrow> uid_source \<Rightarrow> jsval list option \<times> uid_source" where
  "coerce_skins [] g = (Some [], g)"
| "coerce_skins (s # ss) g =
     (if nullish s then (None, g)
      else
        (case (if truthy (get s (ustr ''id'')) then (get s (ustr ''id''), g)
               else (case uid g of (i, g') \<Rightarrow> (JStr i, g'))) of
           (i, g1) \<Rightarrow>
             (case coerce_skins ss g1 of
                (None, g2) \<Rightarrow> (None, g2)
              | (Some rest, g2) \<Rightarrow>
                  (Some (JObj [(ustr ''id'', i),
                               (ustr ''name'', get s (ustr ''name'')),
                               (ustr ''checked'', JBool (truthy (get s (ustr ''checked''))))]
                         # rest), g2))))"

subsection \<open>\<^verbatim>\<open>loadInitialChampions\<close>\<close>

definition CHAMPION_NAMES :: "jstring list" where
  "CHAMPION_NAMES = map ustr
    [''Aatrox'', ''Ahri'', ''Akali'', ''Akshan'', ''Alistar'',
     ''Ambessa'', ''Amumu'', ''Anivia'', ''Annie'', ''Aphelios'',
     ''Ashe'', ''Aurelion Sol'', ''Aurora'', ''Azir'', ''Bard'',
     ''Bel'Veth'', ''Blitzcrank'', ''Brand'', ''Braum'', ''Briar'',
     ''Caitlyn'', ''Camille'', ''Cassiopeia'', ''Cho'Gath'', ''Corki'',
     ''Darius'', ''Diana'', ''Dr. Mundo'', ''Draven'', ''Ekko'',
     ''Elise'', ''Evelynn'', ''Ezreal'', ''Fiddlesticks'', ''Fiora'',
     ''Fizz'', ''Galio'', ''Gangplank'', ''Garen'', ''Gnar'',
     ''Gragas'', ''Graves'', ''Gwen'', ''Hecarim'', ''Heimerdinger'',
     ''Hwei'', ''Illaoi'', ''Irelia'', ''Ivern'', ''Janna'',
     ''Jarvan IV'', ''Jax'', ''Jayce'', ''Jhin'', ''Jinx'',
     ''Kai'Sa'', ''Kalista'', ''Karma'', ''Karthus'', ''Kassadin'',
     ''Katarina'', ''Kayle'', ''Kayn'', ''Kennen'', ''Kha'Zix'',
     ''Kindred'', ''Kled'', ''Kog'Maw'', ''K'Sante'', ''LeBlanc'',
     ''Lee Sin'', ''Leona'', ''Lillia'', ''Lissandra'', ''Lucian'',
     ''Lulu'', ''Lux'', ''Malphite'', ''Malzahar'', ''Maokai'',
     ''Master Yi'', ''Mel'', ''Milio'', ''Miss Fortune'',
     ''Mordekaiser'', ''Morgana'', ''Naafiri'', ''Nami'', ''Nasus'',
     ''Nautilus'', ''Neeko'', ''Nidalee'', ''Nilah'', ''Nocturne'',
     ''Nunu'', ''Olaf'', ''Orianna'', ''Ornn'', ''Pantheon'',
     ''Poppy'', ''Pyke'', ''Qiyana'', ''Quinn'', ''Rakan'',
     ''Rammus'', ''Rek'Sai'', ''Rell'', ''Renata Glasc'', ''Renekton'',
     ''Rengar'', ''Riven'', ''Rumble'', ''Ryze'', ''Samira'',
     ''Sejuani'', ''Senna'', ''Seraphine'', ''Sett'', ''Shaco'',
     ''Shen'', ''Shyvana'', ''Singed'', ''Sion'', ''Sivir'',
     ''Skarner'', ''Smolder'', ''Sona'', ''Soraka'', ''Swain'',
     ''Sylas'', ''Syndra'', ''Tahm Kench'', ''Taliyah'', ''Talon'',
     ''Taric'', ''Teemo'', ''Thresh'', ''Tristana'', ''Trundle'',
     ''Tryndamere'', ''Twisted Fate'', ''Twitch'', ''Udyr'', ''Urgot'',
     ''Varus'', ''Vayne'', ''Veigar'', ''Vel'Koz'', ''Vex'',
     ''Vi'', ''Viego'', ''Viktor'', ''Vladimir'', ''Volibear'',
     ''Warwick'', ''Wukong'', ''Xayah'', ''Xerath'', ''Xin Zhao'',
     ''Yasuo'', ''Yone'', ''Yorick'', ''Yunara'', ''Yuumi'',
     ''Zac'', ''Zed'', ''Zeri'', ''Ziggs'', ''Zilean'', ''Zoe'',
     ''Zyra'']"

definition fresh_champion :: "jstring \<Rightarrow> jsval" where
  "fresh_champion name =
     JObj [(ustr ''id'', JStr (nameToId name)), (ustr ''name'', JStr name), (ustr ''skins'', JArr [])]"

text \<open>The callback of \<^verbatim>\<open>CHAMPION_NAMES.map\<close>, for one canonical name.\<close>

definition canonical_entry ::
  "(jsval \<rightharpoonup> jsval) \<Rightarrow> jstring \<Rightarrow> uid_source \<Rightarrow> jsval option \<times> uid_source"
where
  "canonical_entry byName name g =
     (let existing = map_get byName (JStr name) in
      if truthy existing then
        (case (if isArray (get existing (ustr ''skins''))
               then coerce_skins (elements (get existing (ustr ''skins''))) g
               else (Some [], g)) of
           (None, g') \<Rightarrow> (None, g')
         | (Some ss, g') \<Rightarrow>
             (Some (JObj [(ustr ''id'',
                            if truthy (get existing (ustr ''id'')) then get existing (ustr ''id'')
                            else JStr (nameToId name)),
                          (ustr ''name'', get existing (ustr ''name'')),
                          (ustr ''skins'', JArr ss)]), g'))
      else (Some (fresh_champion name), g))"

fun merge_canonical ::
  "(jsval \<rightharpoonup> jsval) \<Rightarrow> jstring list \<Rightarrow> uid_source \<Rightarrow> jsval list option \<times> uid_source"
where
  "merge_canonical byName [] g = (Some [], g)"
| "merge_canonical byName (name # names) g =
     (case canonical_entry byName name g of
        (None, g1) \<Rightarrow> (None, g1)
      | (Some c, g1) \<Rightarrow>
          (case merge_canonical byName names g1 of
             (None, g2) \<Rightarrow> (None, g2)
           | (Some cs, g2) \<Rightarrow> (Some (c # cs), g2)))"

text \<open>\<^verbatim>\<open>CHAMPION_NAMES.includes(c.name)\<close>.\<close>

fun includes_name :: "jstring list \<Rightarrow> jsval \<Rightarrow> bool" where
  "includes_name names (JStr n) = (n \<in> set names)"
| "includes_name names v = False"

text \<open>
  The \<^verbatim>\<open>try\<close> block; \<open>None\<close> stands for an exception. \<open>JSON_parse\<close> is the platform's
  parser (\<open>None\<close>: a SyntaxError) and \<open>raw\<close> what \<^verbatim>\<open>localStorage.getItem\<close> returned.
  Both loops over \<^verbatim>\<open>parsed\<close> are guarded by \<^verbatim>\<open>if (parsed)\<close>; they run over its
  elements, and over nothing when it is falsy.
\<close>

definition load_body ::
  "(jstring \<Rightarrow> jsval option) \<Rightarrow> jstring option \<Rightarrow> uid_source \<Rightarrow> jsval list option \<times> uid_source"
where
  "load_body JSON_parse raw g =
     (case (case raw of
              None \<Rightarrow> Some JNull
            | Some r \<Rightarrow> if r = [] then Some JNull else JSON_parse r) of
        None \<Rightarrow> (None, g)
      | Some parsed \<Rightarrow>
          (case (if truthy parsed then iterate parsed else Some []) of
             None \<Rightarrow> (None, g)
           | Some cs \<Rightarrow>
               (case index_by_name cs Map.empty of
                  None \<Rightarrow> (None, g)
                | Some byName \<Rightarrow>
                    (case merge_canonical byName CHAMPION_NAMES g of
                       (None, g') \<Rightarrow> (None, g')
                     | (Some merged, g') \<Rightarrow>
                         (Some (merged
                                @ filter (\<lambda>c. \<not> includes_name CHAMPION_NAMES (get c (ustr ''name''))) cs),
                          g')))))"

definition loadInitialChampions ::
  "(jstring \<Rightarrow> jsval option) \<Rightarrow> jstring option \<Rightarrow> uid_source \<Rightarrow> jsval list \<times> uid_source"
where
  "loadInitialChampions JSON_parse raw g =
     (case load_body JSON_parse raw g of
        (Some merged, g') \<Rightarrow> (merged, g')
      | (None, g') \<Rightarrow> (map fresh_champion CHAMPION_NAMES, g'))"

subsection \<open>\<^verbatim>\<open>importJson\<close>\<close>

text \<open>The updater passed to \<^verbatim>\<open>setChampions\<close>, for one champion of the store.\<close>

definition import_entry ::
  "(jsval \<rightharpoonup> jsval) \<Rightarrow> jsval \<Rightarrow> uid_source \<Rightarrow> jsval option \<times> uid_source"
where
  "import_entry byName c g =
     (if nullish c then (None, g)
      else
        (let incoming = map_get byName (get c (ustr ''name'')) in
         if \<not> truthy incoming then (Some c, g)
         else
           (case (if isArray (get incoming (ustr ''skins''))
                  then (case coerce_skins (elements (get incoming (ustr ''skins''))) g of
                          (None, g') \<Rightarrow> (None, g')
                        | (Some ss, g') \<Rightarrow> (Some (JArr ss), g'))
                  else (Some (get c (ustr ''skins'')), g)) of
              (None, g') \<Rightarrow> (None, g')
            | (Some ss, g') \<Rightarrow>
                (Some (JObj [(ustr ''id'', get c (ustr ''id'')),
                             (ustr ''name'', get c (ustr ''name'')),
                             (ustr ''skins'', ss)]), g'))))"

fun import_update ::
  "(jsval \<rightharpoonup> jsval) \<Rightarrow> jsval list \<Rightarrow> uid_source \<Rightarrow> jsval list option \<times> uid_source"
where
  "import_update byName [] g = (Some [], g)"
| "import_update byName (c # cs) g =
     (case import_entry byName c g of
        (None, g1) \<Rightarrow> (None, g1)
      | (Some c', g1) \<Rightarrow>
          (case import_update byName cs g1 of
             (None, g2) \<Rightarrow> (None, g2)
           | (Some cs', g2) \<Rightarrow> (Some (c' # cs'), g2)))"

text \<open>
  \<open>Alerted\<close>: the \<^verbatim>\<open>catch\<close> branch ran (the file does not parse, is no array, or has a
  nullish element) and the store is as it was. \<open>Updated\<close>: the new store. \<open>UpdaterThrew\<close>:
  the function given to \<^verbatim>\<open>setChampions\<close> threw, outside the \<^verbatim>\<open>try\<close> block.
\<close>

datatype import_outcome = Alerted | Updated "jsval list" | UpdaterThrew

definition importJson ::
  "(jstring \<Rightarrow> jsval option) \<Rightarrow> jstring \<Rightarrow> jsval list \<Rightarrow> uid_source \<Rightarrow> import_outcome \<times> uid_source"
where
  "importJson JSON_parse text prev g =
     (case JSON_parse text of
        None \<Rightarrow> (Alerted, g)
      | Some data \<Rightarrow>
          if \<not> isArray data then (Alerted, g)
          else
            (case index_by_name (elements data) Map.empty of
               None \<Rightarrow> (Alerted, g)
             | Some byName \<Rightarrow>
                 (case import_update byName prev g of
                    (None, g') \<Rightarrow> (UpdaterThrew, g')
                  | (Some champions, g') \<Rightarrow> (Updated champions, g'))))"

section \<open>Auxiliary functions for the proofs\<close>

text \<open>
  The skins that the first loop of \<^verbatim>\<open>mergeSkins\<close> pushes, without the accumulator, and the
  number of fetched names for which it calls \<^verbatim>\<open>uid()\<close>.
\<close>

fun placed :: "(jstring \<rightharpoonup> Skin) \<Rightarrow> jstring list \<Rightarrow> uid_source \<Rightarrow> Skin list" where
  "placed m [] g = []"
| "placed m (n # ns) g =
     (case m (normalize n) of
        Some e \<Rightarrow> e # placed m ns g
      | None \<Rightarrow> \<lparr>skin_id = g 0, skin_name = n, checked = False\<rparr> # placed m ns (\<lambda>k. g (Suc k)))"

definition misses :: "(jstring \<rightharpoonup> Skin) \<Rightarrow> jstring list \<Rightarrow> nat" where
  "misses m ns = length (filter (\<lambda>n. m (normalize n) = None) ns)"

text \<open>The content of a skin list that the idempotence claim compares.\<close>

definition ids_and_flags :: "Skin list \<Rightarrow> (jstring \<times> bool) list" where
  "ids_and_flags ss = map (\<lambda>s. (skin_id s, checked s)) ss"

text \<open>
  The ways in which \<^verbatim>\<open>fetchChampionSkins\<close> can fail for a key: the request fails, the
  status is not OK, the body is malformed, or the document has no entry for the key.
\<close>

fun fetch_failed :: "fetch_result \<Rightarrow> jstring \<Rightarrow> bool" where
  "fetch_failed NetworkError key = True"
| "fetch_failed (Response ok body) key =
     (\<not> ok \<or> (case body of None \<Rightarrow> True | Some detail \<Rightarrow> map_of (dd_data detail) key = None))"

text \<open>
  A stored entity that \<^verbatim>\<open>loadInitialChampions\<close> reads without a TypeError: it is not
  nullish, and neither is any element of its \<^verbatim>\<open>skins\<close> array.
\<close>

definition well_shaped :: "jsval \<Rightarrow> bool" where
  "well_shaped c \<longleftrightarrow>
     \<not> nullish c \<and> list_all (\<lambda>s. \<not> nullish s) (elements (get c (ustr ''skins'')))"

section \<open>Example inputs\<close>

definition ex_uids :: uid_source where
  "ex_uids n = ustr ''uid'' @ replicate n 0x2B"

text \<open>A champion whose only skin was added by hand and is owned.\<close>

definition ex_ahri :: Champion where
  "ex_ahri =
     \<lparr>champ_id = ustr ''champ_ahri'', champ_name = ustr ''Ahri'',
      skins = [\<lparr>skin_id = ustr ''s1'', skin_name = ustr ''My Custom'', checked = True\<rparr>]\<rparr>"

definition ex_empty_ahri :: Champion where
  "ex_empty_ahri = \<lparr>champ_id = ustr ''champ_ahri'', champ_name = ustr ''Ahri'', skins = []\<rparr>"

text \<open>Two fetched names with the same normalization.\<close>

definition ex_dup_names :: "jstring list" where
  "ex_dup_names = [ustr ''Foxfire'', ustr ''fox-fire'']"

definition ex_merged_once :: "Champion \<times> uid_source" where
  "ex_merged_once = mergeSkins ex_empty_ahri ex_dup_names ex_uids"

text \<open>Two skins of one champion with the same normalization, the first one owned.\<close>

definition ex_twins :: Champion where
  "ex_twins =
     \<lparr>champ_id = ustr ''champ_ahri'', champ_name = ustr ''Ahri'',
      skins = [\<lparr>skin_id = ustr ''s1'', skin_name = ustr ''Foxfire'', checked = True\<rparr>,
               \<lparr>skin_id = ustr ''s2'', skin_name = ustr ''foxfire'', checked = False\<rparr>]\<rparr>"

text \<open>The scenario of the specification: one owned skin, two fetched names.\<close>

definition ex_fox :: Champion where
  "ex_fox =
     \<lparr>champ_id = ustr ''champ_ahri'', champ_name = ustr ''Ahri'',
      skins = [\<lparr>skin_id = ustr ''s1'', skin_name = ustr ''Foxfire'', checked = True\<rparr>]\<rparr>"

definition ex_names :: "jstring list" where
  "ex_names = [ustr ''Foxfire'', ustr ''Midnight'']"

text \<open>No network, and a key map that knows Ahri.\<close>

definition ex_offline :: network where
  "ex_offline url = NetworkError"

definition ex_keyMap :: "jstring \<rightharpoonup> jstring" where
  "ex_keyMap = [ustr ''ahri'' \<mapsto> ustr ''Ahri'']"

text \<open>
  A stored document with one entity, which is not canonical; its skin has no id and its
  owned flag is the number 1. \<open>ex_parse\<close> is a parser that reads the text as that document.
\<close>

definition ex_custom_skin :: jsval where
  "ex_custom_skin = JObj [(ustr ''name'', JStr (ustr ''X'')), (ustr ''checked'', JNum 1)]"

definition ex_custom :: jsval where
  "ex_custom =
     JObj [(ustr ''name'', JStr (ustr ''CustomChamp'')), (ustr ''skins'', JArr [ex_custom_skin])]"

definition ex_raw :: jstring where
  \<open>ex_raw = ustr ''[{"name":"CustomChamp","skins":[{"name":"X","checked":1}]}]''\<close>

definition ex_parse :: "jstring \<Rightarrow> jsval option" where
  "ex_parse t = (if t = ex_raw then Some (JArr [ex_custom]) else None)"

text \<open>
  A store with the champions Ahri and Akali, and an import document in which the entity
  Ahri has another id and a \<^verbatim>\<open>skins\<close> field that is no array, and the entity Akali
  has another id and one skin without id. \<open>ex_imported\<close> is the store after the import.
\<close>

definition ex_store_skin :: jsval where
  "ex_store_skin =
     JObj [(ustr ''id'', JStr (ustr ''s1'')), (ustr ''name'', JStr (ustr ''Foxfire'')),
           (ustr ''checked'', JBool True)]"

definition ex_store_ahri :: jsval where
  "ex_store_ahri =
     JObj [(ustr ''id'', JStr (ustr ''champ_ahri'')), (ustr ''name'', JStr (ustr ''Ahri'')),
           (ustr ''skins'', JArr [ex_store_skin])]"

definition ex_store :: "jsval list" where
  "ex_store =
     [ex_store_ahri,
      JObj [(ustr ''id'', JStr (ustr ''champ_akali'')), (ustr ''name'', JStr (ustr ''Akali'')),
            (ustr ''skins'', JArr [])]]"

definition ex_import_ahri :: jsval where
  "ex_import_ahri =
     JObj [(ustr ''id'', JStr (ustr ''other'')), (ustr ''name'', JStr (ustr ''Ahri'')),
           (ustr ''skins'', JStr (ustr ''none''))]"

definition ex_import_akali :: jsval where
  "ex_import_akali =
     JObj [(ustr ''id'', JStr (ustr ''another'')), (ustr ''name'', JStr (ustr ''Akali'')),
           (ustr ''skins'',
            JArr [JObj [(ustr ''name'', JStr (ustr ''Stinger'')), (ustr ''checked'', JNum 1)]])]"

definition ex_import_doc :: jsval where
  "ex_import_doc = JArr [ex_import_ahri, ex_import_akali]"

definition ex_import_text :: jstring where
  \<open>ex_import_text = ustr ''[{"id":"other","name":"Ahri","skins":"none"},{"id":"another","name":"Akali","skins":[{"name":"Stinger","checked":1}]}]''\<close>

definition ex_import_parse :: "jstring \<Rightarrow> jsval option" where
  "ex_import_parse t = (if t = ex_import_text then Some ex_import_doc else None)"

definition ex_imported :: "jsval list" where
  "ex_imported =
     [ex_store_ahri,
      JObj [(ustr ''id'', JStr (ustr ''champ_akali'')), (ustr ''name'', JStr (ustr ''Akali'')),
            (ustr ''skins'',
             JArr [JObj [(ustr ''id'', JStr (ex_uids 0)), (ustr ''name'', JStr (ustr ''Stinger'')),
                         (ustr ''checked'', JBool True)]])]]"

text \<open>A parser that rejects every text.\<close>

definition ex_no_parse :: "jstring \<Rightarrow> jsval option" where
  "ex_no_parse t = None"

section \<open>Properties of \<open>normalize\<close>\<close>


lemma reorder_ins_starter: "ccc_of U c = 0 \<Longrightarrow> reorder_ins U c ps = c # ps"
  by (cases ps) simp_all



lemma fold_reorder_ins_starters:
  "\<forall>c\<in>set t. ccc_of U c = 0 \<Longrightarrow> fold (reorder_ins U) t acc = rev t @ acc"
  by (induction t arbitrary: acc) (simp_all add: reorder_ins_starter)

lemma canonical_order_starters:
  "\<forall>c\<in>set t. ccc_of U c = 0 \<Longrightarrow> canonical_order U t = t"
  by (simp add: canonical_order_def fold_reorder_ins_starters)




lemma concat_singletons: "\<forall>x\<in>set xs. f x = [x] \<Longrightarrow> concat (map f xs) = xs"
  by (induction xs) simp_all



lemma lower_from_rows: "lower_from ucd_rows b s = map lower_cp s"
  by (induction s arbitrary: b) (simp_all add: ucd_rows_def)

lemma toLowerCase_rows: "toLowerCase ucd_rows s = map lower_cp s"
  by (simp add: toLowerCase_def lower_from_rows)

lemma ucd_rows_simps:
  "lower_of ucd_rows before c after = [lower_cp c]" "decomp_of ucd_rows = decompose"
  "ccc_of ucd_rows = ccc" "diacritic_of ucd_rows = Diacritic"
  by (simp_all add: ucd_rows_def)

lemma ccc_low: "c < 0x300 \<Longrightarrow> ccc c = 0"
  by (simp add: ccc_def)


lemma table_rows:
  "list_all (\<lambda>(k, d). 0xC0 \<le> k \<and> k \<le> 0xFF \<and>
      list_all (\<lambda>x. (x < 0xC0 \<or> 0xFF < x) \<and> lower_cp x = (if lower_cp k = k then x else lower_cp x)) d)
    decomposition_table"
  by (simp add: decomposition_table_def lower_cp_def)


lemma decompose_outside: "c < 0xC0 \<or> 0xFF < c \<Longrightarrow> decompose c = [c]"
proof -
  assume c: "c < 0xC0 \<or> 0xFF < c"
  have "map_of decomposition_table c = None"
  proof (cases "map_of decomposition_table c")
    case (Some d)
    then have "(c, d) \<in> set decomposition_table" by (rule map_of_SomeD)
    with table_rows have "0xC0 \<le> c \<and> c \<le> 0xFF" unfolding list_all_iff by blast
    with c show ?thesis by simp
  qed simp
  then show ?thesis by (simp add: decompose_def)
qed

lemma decompose_low: "c < 0xC0 \<Longrightarrow> decompose c = [c]"
  by (simp add: decompose_outside)



lemma normalize_below_C0:
  assumes "list_all (\<lambda>c. c < 0xC0) s"
  shows "normalize s = filter (\<lambda>c. \<not> punct_or_space c) (filter (\<lambda>c. \<not> Diacritic c) (map lower_cp s))"
proof -
  have low: "\<forall>c\<in>set (map lower_cp s). c < 0xC0"
    using assms by (auto simp: list_all_iff lower_cp_def)
  then have "concat (map decompose (map lower_cp s)) = map lower_cp s"
    by (intro concat_singletons) (simp add: decompose_low)
  moreover have "canonical_order ucd_rows (map lower_cp s) = map lower_cp s"
  proof (rule canonical_order_starters)
    show "\<forall>c\<in>set (map lower_cp s). ccc_of ucd_rows c = 0"
    proof
      fix c assume "c \<in> set (map lower_cp s)"
      with low have "c < 0xC0" by blast
      then have "c < 0x300" by simp
      then show "ccc_of ucd_rows c = 0" by (simp add: ucd_rows_simps ccc_low)
    qed
  qed
  ultimately show ?thesis
    by (simp add: normalize_def normalize_with_def NFD_def toLowerCase_rows ucd_rows_simps)
qed

lemmas ascii_eval =
  normalize_below_C0 lower_cp_def Diacritic_def punct_or_space_def is_space_def ustr_def


section \<open>Properties of \<open>mergeSkins\<close>\<close>

lemma existingByName_of_map_of:
  "fold (\<lambda>s m. m(normalize (skin_name s) \<mapsto> s)) ss m0 =
     m0 ++ map_of (rev (map (\<lambda>s. (normalize (skin_name s), s)) ss))"
  by (induction ss arbitrary: m0) (simp_all add: map_add_upd_left fun_eq_iff map_add_def split: option.splits)

lemma existingByName_of_alt:
  "existingByName_of ss = map_of (rev (map (\<lambda>s. (normalize (skin_name s), s)) ss))"
  by (simp add: existingByName_of_def existingByName_of_map_of)

lemma existingByName_of_find:
  "existingByName_of ss k = List.find (\<lambda>s. normalize (skin_name s) = k) (rev ss)"
proof -
  have "map_of (map (\<lambda>s. (normalize (skin_name s), s)) xs) k
          = List.find (\<lambda>s. normalize (skin_name s) = k) xs" for xs :: "Skin list"
    by (induction xs) auto
  from this [of "rev ss"] show ?thesis
    by (simp add: existingByName_of_alt rev_map)
qed

lemma existingByName_of_Some:
  assumes "existingByName_of ss k = Some e"
  shows "e \<in> set ss \<and> normalize (skin_name e) = k"
  using assms unfolding existingByName_of_find find_Some_iff
  by (metis nth_mem set_rev length_rev)

lemma existingByName_of_member:
  "s \<in> set ss \<Longrightarrow> existingByName_of ss (normalize (skin_name s)) \<noteq> None"
  unfolding existingByName_of_find find_None_iff by auto

lemma existingByName_of_None:
  "existingByName_of ss k = None \<longleftrightarrow> (\<forall>s\<in>set ss. normalize (skin_name s) \<noteq> k)"
  unfolding existingByName_of_find find_None_iff by auto

lemma custom_loop_keeps_nothing:
  "set ss \<subseteq> set all \<Longrightarrow> custom_loop (existingByName_of all) fetchedNames ss merged = merged"
  by (induction ss arbitrary: merged) (auto simp: existingByName_of_member)

lemma fetched_loop_placed:
  "fetched_loop m ns merged g = (merged @ placed m ns g, \<lambda>k. g (k + misses m ns))"
  by (induction ns arbitrary: merged g) (auto simp: misses_def uid_def split: option.splits)

lemma mergeSkins_placed:
  "mergeSkins c f g =
     (c\<lparr>skins := placed (existingByName_of (skins c)) f g\<rparr>,
      \<lambda>k. g (k + misses (existingByName_of (skins c)) f))"
  by (simp add: mergeSkins_def Let_def fetched_loop_placed custom_loop_keeps_nothing)

lemma length_placed: "length (placed m ns g) = length ns"
  by (induction ns arbitrary: g) (auto split: option.splits)

lemma placed_nth:
  "i < length ns \<Longrightarrow>
   placed m ns g ! i =
     (case m (normalize (ns ! i)) of
        Some e \<Rightarrow> e
      | None \<Rightarrow> \<lparr>skin_id = g (misses m (take i ns)), skin_name = ns ! i, checked = False\<rparr>)"
proof (induction ns arbitrary: i g)
  case Nil
  then show ?case by simp
next
  case (Cons n ns)
  show ?case
  proof (cases i)
    case 0
    then show ?thesis by (simp add: misses_def split: option.splits)
  next
    case (Suc j)
    with Cons.prems have "j < length ns" by simp
    from Cons.IH [OF this] Suc show ?thesis
      by (simp add: misses_def split: option.splits)
  qed
qed

lemma placed_keys:
  assumes "\<And>k e. m k = Some e \<Longrightarrow> normalize (skin_name e) = k"
  shows "map (\<lambda>s. normalize (skin_name s)) (placed m ns g) = map normalize ns"
  using assms by (induction ns arbitrary: g) (auto split: option.splits)

lemma placed_all_hits:
  "length r = length ns \<Longrightarrow> (\<And>i. i < length ns \<Longrightarrow> m (normalize (ns ! i)) = Some (r ! i))
     \<Longrightarrow> placed m ns g = r"
proof (induction ns arbitrary: r)
  case Nil
  then show ?case by simp
next
  case (Cons n ns)
  then obtain x r' where r: "r = x # r'" by (cases r) auto
  from Cons.prems(2) [of 0] r have hit: "m (normalize n) = Some x" by simp
  have "placed m ns g = r'"
  proof (rule Cons.IH)
    show "length r' = length ns" using Cons.prems(1) r by simp
    fix i assume "i < length ns"
    then show "m (normalize (ns ! i)) = Some (r' ! i)"
      using Cons.prems(2) [of "Suc i"] r by simp
  qed
  with hit r show ?case by simp
qed

lemma existingByName_of_distinct:
  assumes "distinct (map (\<lambda>s. normalize (skin_name s)) r)" and "i < length r"
  shows "existingByName_of r (normalize (skin_name (r ! i))) = Some (r ! i)"
proof -
  let ?kv = "rev (map (\<lambda>s. (normalize (skin_name s), s)) r)"
  have "distinct (map fst ?kv)" using assms(1) by (simp add: rev_map [symmetric] comp_def)
  moreover have "(normalize (skin_name (r ! i)), r ! i) \<in> set ?kv"
    using assms(2) by auto
  ultimately show ?thesis
    unfolding existingByName_of_alt by (rule map_of_is_SomeI)
qed

lemma mergeSkins_twice:
  assumes "distinct (map normalize f)"
  shows "mergeSkins (fst (mergeSkins c f g)) f g' = (fst (mergeSkins c f g), g')"
proof -
  let ?m = "existingByName_of (skins c)"
  let ?r = "placed ?m f g"
  have keys: "map (\<lambda>s. normalize (skin_name s)) ?r = map normalize f"
    by (rule placed_keys) (simp add: existingByName_of_Some)
  have dist: "distinct (map (\<lambda>s. normalize (skin_name s)) ?r)"
    using assms keys by simp
  have hit: "existingByName_of ?r (normalize (f ! i)) = Some (?r ! i)" if "i < length f" for i
  proof -
    from that have i: "i < length ?r" by (simp add: length_placed)
    have "normalize (skin_name (?r ! i)) = normalize (f ! i)"
      using keys that i by (metis nth_map)
    with existingByName_of_distinct [OF dist i] show ?thesis by simp
  qed
  have again: "placed (existingByName_of ?r) f g' = ?r"
    by (rule placed_all_hits) (simp_all add: length_placed hit)
  have "misses (existingByName_of ?r) f = 0"
    unfolding misses_def using hit by (auto simp: filter_empty_conv in_set_conv_nth)
  with again show ?thesis
    by (simp add: mergeSkins_placed)
qed

lemma mergeSkins_nth:
  assumes "i < length f"
  shows "i < length (skins (fst (mergeSkins c f g))) \<and>
    skins (fst (mergeSkins c f g)) ! i =
      (case existingByName_of (skins c) (normalize (f ! i)) of
         Some existing \<Rightarrow> existing
       | None \<Rightarrow>
           \<lparr>skin_id =
              g (length (filter (\<lambda>n. \<forall>s\<in>set (skins c). normalize (skin_name s) \<noteq> normalize n)
                           (take i f))),
            skin_name = f ! i, checked = False\<rparr>)"
proof -
  have "misses (existingByName_of (skins c)) xs
          = length (filter (\<lambda>n. \<forall>s\<in>set (skins c). normalize (skin_name s) \<noteq> normalize n) xs)"
    for xs
    by (simp add: misses_def existingByName_of_None)
  then show ?thesis
    using assms
    by (simp add: mergeSkins_placed length_placed placed_nth split: option.splits)
qed

text \<open>
  What the claim about the fetched positions says, for a champion whose skins have
  pairwise different normalized names.
\<close>

lemma mergeSkins_distinct_names:
  assumes "distinct (map (\<lambda>s. normalize (skin_name s)) (skins c))" and "i < length f"
  shows "i < length (skins (fst (mergeSkins c f g)))"
    and "s \<in> set (skins c) \<Longrightarrow> normalize (skin_name s) = normalize (f ! i)
           \<Longrightarrow> skins (fst (mergeSkins c f g)) ! i = s"
    and "\<forall>s\<in>set (skins c). normalize (skin_name s) \<noteq> normalize (f ! i)
           \<Longrightarrow> skins (fst (mergeSkins c f g)) ! i =
                 \<lparr>skin_id =
                    g (length (filter (\<lambda>n. \<forall>s\<in>set (skins c). normalize (skin_name s) \<noteq> normalize n)
                                 (take i f))),
                  skin_name = f ! i, checked = False\<rparr>"
proof -
  note nth = mergeSkins_nth [OF assms(2), of c g]
  from nth show "i < length (skins (fst (mergeSkins c f g)))" by simp
  show "skins (fst (mergeSkins c f g)) ! i = s"
    if "s \<in> set (skins c)" and "normalize (skin_name s) = normalize (f ! i)"
  proof -
    from that(1) obtain j where j: "j < length (skins c)" and s: "s = skins c ! j"
      by (auto simp: in_set_conv_nth)
    from existingByName_of_distinct [OF assms(1) j] s that(2)
    have "existingByName_of (skins c) (normalize (f ! i)) = Some s" by simp
    with nth show ?thesis by simp
  qed
  show "skins (fst (mergeSkins c f g)) ! i =
          \<lparr>skin_id =
             g (length (filter (\<lambda>n. \<forall>s\<in>set (skins c). normalize (skin_name s) \<noteq> normalize n)
                          (take i f))),
           skin_name = f ! i, checked = False\<rparr>"
    if "\<forall>s\<in>set (skins c). normalize (skin_name s) \<noteq> normalize (f ! i)"
  proof -
    from that have "existingByName_of (skins c) (normalize (f ! i)) = None"
      by (simp add: existingByName_of_None)
    with nth show ?thesis by simp
  qed
qed

lemma distinct_filter_eq_le_1: "distinct xs \<Longrightarrow> length (filter (\<lambda>k. k = a) xs) \<le> 1"
  by (induction xs) (auto simp: filter_empty_conv)

section \<open>Properties of the store mutations and of the fetch\<close>

lemma fst_updateChampion_Cons:
  "fst (updateChampion cid up (c # cs) g) =
     fst (if champ_id c = cid then up c g else (c, g))
     # fst (updateChampion cid up cs (snd (if champ_id c = cid then up c g else (c, g))))"
  by (simp split: prod.splits)

lemma length_updateChampion: "length (fst (updateChampion cid up cs g)) = length cs"
  by (induction cs arbitrary: g) (simp_all add: fst_updateChampion_Cons del: updateChampion.simps(2))

lemma updateChampion_uid_nth:
  "i < length cs \<Longrightarrow>
   fst (updateChampion cid (\<lambda>c h. case uid h of (u, h') \<Rightarrow> (F c u, h')) cs g) ! i =
     (if champ_id (cs ! i) = cid
      then F (cs ! i) (g (length (filter (\<lambda>c. champ_id c = cid) (take i cs))))
      else cs ! i)"
  unfolding uid_def prod.case
proof (induction cs arbitrary: i g)
  case Nil
  then show ?case by simp
next
  case (Cons c cs)
  show ?case
  proof (cases i)
    case 0
    then show ?thesis
      by (simp add: fst_updateChampion_Cons del: updateChampion.simps(2))
  next
    case (Suc j)
    with Cons.prems have j: "j < length cs" by simp
    show ?thesis
      using Suc
      by (simp add: fst_updateChampion_Cons Cons.IH [OF j] del: updateChampion.simps(2))
  qed
qed

lemma fetch_failed_empty:
  "fetch_failed (net (champion_url version locale key)) key \<Longrightarrow>
   fetchChampionSkins net version locale key = []"
  by (cases "net (champion_url version locale key)")
     (auto simp: fetchChampionSkins_def split: option.splits)

section \<open>Properties of \<open>loadInitialChampions\<close> and \<open>importJson\<close>\<close>

lemma inj_ustr: "inj ustr"
  unfolding ustr_def by (rule inj_mapI) (rule inj_of_char)

lemma ustr_eq_iff: "ustr a = ustr b \<longleftrightarrow> a = b"
  using inj_ustr by (simp add: inj_eq)

lemma ustr_nonempty: "ustr a = [] \<longleftrightarrow> a = []"
  by (simp add: ustr_def)

lemma canonical_entry_empty: "canonical_entry Map.empty name g = (Some (fresh_champion name), g)"
  by (simp add: canonical_entry_def)

lemma merge_canonical_empty:
  "merge_canonical Map.empty names g = (Some (map fresh_champion names), g)"
  by (induction names) (simp_all add: canonical_entry_empty)

lemma load_body_nothing_stored:
  assumes "raw = None \<or> raw = Some []"
  shows "load_body JSON_parse raw g = (Some (map fresh_champion CHAMPION_NAMES), g)"
  using assms by (auto simp: load_body_def merge_canonical_empty)

lemma load_body_unparseable:
  assumes "JSON_parse r = None" and "r \<noteq> []"
  shows "load_body JSON_parse (Some r) g = (None, g)"
  using assms by (simp add: load_body_def)

lemma index_by_name_keys:
  assumes "index_by_name cs m = Some m'" and "m' k = Some c"
    and "\<And>k c. m k = Some c \<Longrightarrow> get c (ustr ''name'') = k \<and> (c \<in> A \<or> c \<in> set cs)"
  shows "get c (ustr ''name'') = k \<and> (c \<in> A \<or> c \<in> set cs)"
  using assms
proof (induction cs arbitrary: m A)
  case Nil
  then show ?case by simp
next
  case (Cons x cs)
  from Cons.prems(1) have
    rest: "index_by_name cs (m(get x (ustr ''name'') \<mapsto> x)) = Some m'"
    by (simp split: if_splits)
  have "get c (ustr ''name'') = k \<and> (c \<in> insert x A \<or> c \<in> set cs)"
  proof (rule Cons.IH [OF rest Cons.prems(2)])
    fix k' c'
    assume "(m(get x (ustr ''name'') \<mapsto> x)) k' = Some c'"
    then show "get c' (ustr ''name'') = k' \<and> (c' \<in> insert x A \<or> c' \<in> set cs)"
      using Cons.prems(3) [of k' c'] by (auto split: if_splits)
  qed
  then show ?case by auto
qed

lemma index_by_name_sound:
  assumes "index_by_name cs Map.empty = Some byName" and "byName k = Some c"
  shows "get c (ustr ''name'') = k \<and> c \<in> set cs"
  using index_by_name_keys [OF assms, of "{}"] by simp

lemma index_by_name_total:
  "list_all (\<lambda>c. \<not> nullish c) cs \<Longrightarrow> index_by_name cs m \<noteq> None"
  by (induction cs arbitrary: m) simp_all

lemma map_get_Some:
  "truthy (map_get m k) \<Longrightarrow> m k = Some (map_get m k)"
  by (cases k) (simp_all split: option.splits)

lemma coerce_skins_total:
  "list_all (\<lambda>s. \<not> nullish s) ss \<Longrightarrow> fst (coerce_skins ss g) \<noteq> None"
proof (induction ss arbitrary: g)
  case Nil
  then show ?case by simp
next
  case (Cons s ss)
  let ?p = "if truthy (get s (ustr ''id'')) then (get s (ustr ''id''), g)
            else (case uid g of (i, g') \<Rightarrow> (JStr i, g'))"
  obtain i g1 where p: "?p = (i, g1)" by (cases ?p)
  from Cons.IH [of g1] Cons.prems obtain r g2 where "coerce_skins ss g1 = (Some r, g2)"
    by (cases "coerce_skins ss g1") auto
  moreover from Cons.prems have "\<not> nullish s" by simp
  ultimately show ?case
    using p by (simp only: coerce_skins.simps) simp
qed

lemma canonical_entry_name:
  assumes "\<And>k c. byName k = Some c \<Longrightarrow> get c (ustr ''name'') = k"
    and "canonical_entry byName name g = (Some c', g')"
  shows "get c' (ustr ''name'') = JStr name"
proof (cases "truthy (map_get byName (JStr name))")
  case True
  then have "byName (JStr name) = Some (map_get byName (JStr name))" by (rule map_get_Some)
  then have "get (map_get byName (JStr name)) (ustr ''name'') = JStr name" by (rule assms(1))
  with True assms(2) show ?thesis
    by (auto simp: canonical_entry_def Let_def ustr_eq_iff split: if_splits prod.splits option.splits)
next
  case False
  with assms(2) show ?thesis
    by (auto simp: canonical_entry_def Let_def fresh_champion_def ustr_eq_iff)
qed

lemma merge_canonical_names:
  assumes "\<And>k c. byName k = Some c \<Longrightarrow> get c (ustr ''name'') = k"
    and "merge_canonical byName names g = (Some canon, g')"
  shows "map (\<lambda>c. get c (ustr ''name'')) canon = map JStr names"
  using assms(2)
proof (induction names arbitrary: g canon)
  case Nil
  then show ?case by simp
next
  case (Cons name names)
  from Cons.prems obtain c g1 cs where
    e: "canonical_entry byName name g = (Some c, g1)" and
    r: "merge_canonical byName names g1 = (Some cs, g')" and
    c: "canon = c # cs"
    by (auto split: prod.splits option.splits)
  from canonical_entry_name [OF assms(1) e] Cons.IH [OF r] c show ?case by simp
qed

lemma canonical_entry_total:
  assumes "\<And>k c. byName k = Some c \<Longrightarrow> well_shaped c"
  shows "fst (canonical_entry byName name g) \<noteq> None"
proof (cases "truthy (map_get byName (JStr name))")
  case True
  then have "byName (JStr name) = Some (map_get byName (JStr name))" by (rule map_get_Some)
  then have "well_shaped (map_get byName (JStr name))" by (rule assms)
  then have "fst (coerce_skins (elements (get (map_get byName (JStr name)) (ustr ''skins''))) g) \<noteq> None"
    by (simp add: well_shaped_def coerce_skins_total)
  with True show ?thesis
    by (auto simp: canonical_entry_def Let_def split: prod.splits option.splits)
next
  case False
  then show ?thesis by (simp add: canonical_entry_def Let_def)
qed

lemma merge_canonical_total:
  assumes "\<And>k c. byName k = Some c \<Longrightarrow> well_shaped c"
  shows "fst (merge_canonical byName names g) \<noteq> None"
proof (induction names arbitrary: g)
  case Nil
  then show ?case by simp
next
  case (Cons name names)
  have "fst (canonical_entry byName name g) \<noteq> None"
    by (rule canonical_entry_total) (rule assms)
  then obtain c g1 where "canonical_entry byName name g = (Some c, g1)"
    by (cases "canonical_entry byName name g") auto
  moreover from Cons.IH [where g = g1] obtain cs g2 where
    "merge_canonical byName names g1 = (Some cs, g2)"
    by (cases "merge_canonical byName names g1") auto
  ultimately show ?case by simp
qed

lemma load_body_array:
  assumes "r \<noteq> []" and "JSON_parse r = Some (JArr cs)"
    and "load_body JSON_parse (Some r) g = (Some merged, g')"
  shows "take (length CHAMPION_NAMES) (map (\<lambda>c. get c (ustr ''name'')) merged) = map JStr CHAMPION_NAMES
    \<and> drop (length CHAMPION_NAMES) merged
        = filter (\<lambda>c. \<not> includes_name CHAMPION_NAMES (get c (ustr ''name''))) cs"
proof -
  from assms obtain byName canon where
    idx: "index_by_name cs Map.empty = Some byName" and
    mc: "merge_canonical byName CHAMPION_NAMES g = (Some canon, g')" and
    m: "merged = canon @ filter (\<lambda>c. \<not> includes_name CHAMPION_NAMES (get c (ustr ''name''))) cs"
    by (auto simp: load_body_def split: option.splits prod.splits)
  have "map (\<lambda>c. get c (ustr ''name'')) canon = map JStr CHAMPION_NAMES"
    using index_by_name_sound [OF idx] mc by (intro merge_canonical_names) auto
  moreover from this have "length canon = length CHAMPION_NAMES"
    by (metis length_map)
  ultimately show ?thesis using m by simp
qed

lemma load_body_no_exception:
  assumes "r \<noteq> []" and "JSON_parse r = Some (JArr cs)" and "list_all well_shaped cs"
  shows "fst (load_body JSON_parse (Some r) g) \<noteq> None"
proof -
  from assms(3) have "list_all (\<lambda>c. \<not> nullish c) cs"
    by (simp add: list_all_iff well_shaped_def)
  then obtain byName where idx: "index_by_name cs Map.empty = Some byName"
    using index_by_name_total [of cs Map.empty] by auto
  have "well_shaped c" if "byName k = Some c" for k c
    using index_by_name_sound [OF idx that] assms(3) by (simp add: list_all_iff)
  then have "fst (merge_canonical byName CHAMPION_NAMES g) \<noteq> None"
    by (rule merge_canonical_total)
  with assms(1,2) idx show ?thesis
    by (auto simp: load_body_def split: prod.splits option.splits)
qed

lemma ex_custom_not_canonical:
  "\<not> includes_name CHAMPION_NAMES (get ex_custom (ustr ''name''))"
  by (simp add: ex_custom_def CHAMPION_NAMES_def ustr_eq_iff inj_image_mem_iff [OF inj_ustr])

lemma ex_raw_nonempty: "ex_raw \<noteq> []"
  by (simp add: ex_raw_def ustr_nonempty)

lemma ex_custom_well_shaped: "list_all well_shaped [ex_custom]"
  by (simp add: well_shaped_def ex_custom_def ex_custom_skin_def ustr_eq_iff)

lemma key_neq:
  "ustr ''id'' \<noteq> ustr ''name''" "ustr ''id'' \<noteq> ustr ''skins''" "ustr ''name'' \<noteq> ustr ''skins''"
  "ustr ''name'' \<noteq> ustr ''id''" "ustr ''skins'' \<noteq> ustr ''id''" "ustr ''skins'' \<noteq> ustr ''name''"
  by (simp_all add: ustr_eq_iff)

lemma import_entry_result:
  assumes "import_entry byName c g = (Some c', g')"
  shows "get c' (ustr ''id'') = get c (ustr ''id'')
    \<and> get c' (ustr ''name'') = get c (ustr ''name'')
    \<and> (if isArray (get (map_get byName (get c (ustr ''name''))) (ustr ''skins''))
        then \<exists>h ss h'.
               coerce_skins (elements (get (map_get byName (get c (ustr ''name''))) (ustr ''skins''))) h
                 = (Some ss, h')
               \<and> get c' (ustr ''skins'') = JArr ss
        else get c' (ustr ''skins'') = get c (ustr ''skins''))
    \<and> (if truthy (map_get byName (get c (ustr ''name'')))
        then \<exists>ss. c' = JObj [(ustr ''id'', get c (ustr ''id'')),
                            (ustr ''name'', get c (ustr ''name'')), (ustr ''skins'', ss)]
        else c' = c)"
proof (cases "truthy (map_get byName (get c (ustr ''name'')))")
  case False
  with assms have "c' = c"
    by (simp add: import_entry_def Let_def split: if_splits)
  moreover from False have "\<not> isArray (get (map_get byName (get c (ustr ''name''))) (ustr ''skins''))"
    by (cases "map_get byName (get c (ustr ''name''))") simp_all
  ultimately show ?thesis using False by simp
next
  case True
  show ?thesis
  proof (cases "isArray (get (map_get byName (get c (ustr ''name''))) (ustr ''skins''))")
    case False
    with True assms show ?thesis
      by (auto simp: import_entry_def Let_def key_neq split: if_splits)
  next
    case arr: True
    with True assms obtain ss where
      "coerce_skins (elements (get (map_get byName (get c (ustr ''name''))) (ustr ''skins''))) g
         = (Some ss, g')"
      and "c' = JObj [(ustr ''id'', get c (ustr ''id'')), (ustr ''name'', get c (ustr ''name'')),
                      (ustr ''skins'', JArr ss)]"
      by (auto simp: import_entry_def Let_def split: if_splits prod.splits option.splits)
    with True arr show ?thesis
      by (auto simp: key_neq)
  qed
qed

lemma import_update_entries:
  assumes "import_update byName prev g = (Some new, g')"
  shows "length new = length prev
    \<and> (\<forall>i<length prev. \<exists>h h'. import_entry byName (prev ! i) h = (Some (new ! i), h'))"
  using assms
proof (induction prev arbitrary: g new)
  case Nil
  then show ?case by simp
next
  case (Cons c cs)
  from Cons.prems obtain c' g1 cs' where
    e: "import_entry byName c g = (Some c', g1)" and
    r: "import_update byName cs g1 = (Some cs', g')" and
    n: "new = c' # cs'"
    by (auto split: prod.splits option.splits)
  from Cons.IH [OF r] have
    l: "length cs' = length cs" and
    ih: "\<And>i. i < length cs \<Longrightarrow> \<exists>h h'. import_entry byName (cs ! i) h = (Some (cs' ! i), h')"
    by auto
  have "\<exists>h h'. import_entry byName ((c # cs) ! i) h = (Some (new ! i), h')"
    if "i < length (c # cs)" for i
  proof (cases i)
    case 0
    with e n show ?thesis by auto
  next
    case (Suc j)
    with that ih [of j] n show ?thesis by simp
  qed
  with l n show ?case by simp
qed

section \<open>The claims about \<open>normalize\<close>\<close>




section \<open>The claims about \<open>mergeSkins\<close>\<close>

text \<open>
  C1: every existing skin whose normalized name matches no fetched name survives the
  merge, appended after the fetched part. The source announces this (``Keep any custom
  skins that were not in fetched list''), but the second loop keeps a skin only if
  \<^verbatim>\<open>existingByName\<close> has no entry for its name, and that map was built from the very same
  skins: the loop appends nothing (\<open>custom_loop_keeps_nothing\<close>). Here the champion's only
  skin, added by hand and owned, is gone after a merge with the fetched name Foxfire.
\<close>

theorem mergeSkins_drops_custom_skin:
  "skins ex_ahri = [\<lparr>skin_id = ustr ''s1'', skin_name = ustr ''My Custom'', checked = True\<rparr>]
   \<and> skins (fst (mergeSkins ex_ahri [ustr ''Foxfire''] ex_uids))
       = [\<lparr>skin_id = ustr ''uid'', skin_name = ustr ''Foxfire'', checked = False\<rparr>]"
  by (simp add: mergeSkins_placed existingByName_of_def ex_ahri_def ex_uids_def ascii_eval)

text \<open>
  C2 (as stated): also for a fetched list with two names of equal normalization, no two
  skins of the result share a normalized name that came from the fetched list. This fails:
  the loop pushes one skin for each fetched name and never looks at what it has pushed.
  For the fetched names Foxfire and fox-fire the result holds a skin of either name.
\<close>

theorem mergeSkins_duplicate_fetched_names:
  "map skin_name (skins (fst (mergeSkins ex_empty_ahri ex_dup_names ex_uids)))
     = [ustr ''Foxfire'', ustr ''fox-fire'']
   \<and> normalize (ustr ''Foxfire'') = normalize (ustr ''fox-fire'')
   \<and> ex_dup_names = [ustr ''Foxfire'', ustr ''fox-fire'']"
  by (simp add: mergeSkins_placed existingByName_of_def ex_empty_ahri_def ex_dup_names_def
        ex_uids_def ascii_eval)

text \<open>
  C2 (amended): when the fetched names have pairwise different normalizations, at most
  one skin of the result carries the normalized name of any given fetched name.
\<close>

theorem mergeSkins_fetched_name_once:
  assumes "distinct (map normalize f)" and "n \<in> set f"
  shows "length (filter (\<lambda>s. normalize (skin_name s) = normalize n)
           (skins (fst (mergeSkins c f g)))) \<le> 1"
proof -
  let ?r = "placed (existingByName_of (skins c)) f g"
  let ?keys = "map (\<lambda>s. normalize (skin_name s)) ?r"
  have "?keys = map normalize f"
    by (rule placed_keys) (simp add: existingByName_of_Some)
  with assms(1) have "distinct ?keys" by simp
  then have "length (filter (\<lambda>k. k = normalize n) ?keys) \<le> 1"
    by (rule distinct_filter_eq_le_1)
  then show ?thesis
    by (simp add: mergeSkins_placed filter_map comp_def)
qed

theorem mergeSkins_fetched_name_once_witness:
  "distinct (map normalize ex_names) \<and> ustr ''Foxfire'' \<in> set ex_names
   \<and> length (filter (\<lambda>s. normalize (skin_name s) = normalize (ustr ''Foxfire''))
        (skins (fst (mergeSkins ex_fox ex_names ex_uids)))) \<le> 1"
proof -
  have d: "distinct (map normalize ex_names)"
    by (simp add: ex_names_def ascii_eval)
  have m: "ustr ''Foxfire'' \<in> set ex_names"
    by (simp add: ex_names_def)
  from d m mergeSkins_fetched_name_once [OF d m, of ex_fox ex_uids] show ?thesis by simp
qed

text \<open>
  C3 (as stated): \<open>mergeSkins\<close> is idempotent for every champion and every fetched list,
  compared by skin ids and owned flags. This fails for a fetched list with two names of
  equal normalization and a champion without a skin of that name: the first merge makes
  one new skin for each of the two names; in the second merge both names find the later
  of these skins, whose id then stands twice.
\<close>

theorem mergeSkins_not_idempotent:
  "ids_and_flags (skins (fst (mergeSkins (fst ex_merged_once) ex_dup_names (snd ex_merged_once))))
     \<noteq> ids_and_flags (skins (fst ex_merged_once))"
proof -
  have once: "skins (fst ex_merged_once)
      = [\<lparr>skin_id = ustr ''uid'', skin_name = ustr ''Foxfire'', checked = False\<rparr>,
         \<lparr>skin_id = ustr ''uid+'', skin_name = ustr ''fox-fire'', checked = False\<rparr>]"
    by (simp add: ex_merged_once_def mergeSkins_placed existingByName_of_def ex_empty_ahri_def
          ex_dup_names_def ex_uids_def ascii_eval)
  have "skins (fst (mergeSkins (fst ex_merged_once) ex_dup_names (snd ex_merged_once)))
      = [\<lparr>skin_id = ustr ''uid+'', skin_name = ustr ''fox-fire'', checked = False\<rparr>,
         \<lparr>skin_id = ustr ''uid+'', skin_name = ustr ''fox-fire'', checked = False\<rparr>]"
    by (simp add: mergeSkins_placed once existingByName_of_def ex_dup_names_def ascii_eval)
  with once show ?thesis
    by (simp add: ids_and_flags_def ustr_def)
qed

text \<open>
  C3 (amended): when the fetched names have pairwise different normalizations, a second
  merge with the same fetched list returns the champion of the first merge unchanged
  (hence with the same skin ids and owned flags) and draws no identifier.
\<close>

theorem mergeSkins_idempotent:
  assumes "distinct (map normalize f)"
  shows "mergeSkins (fst (mergeSkins c f g)) f g' = (fst (mergeSkins c f g), g')
    \<and> ids_and_flags (skins (fst (mergeSkins (fst (mergeSkins c f g)) f g')))
        = ids_and_flags (skins (fst (mergeSkins c f g)))"
  using mergeSkins_twice [OF assms, of c g g'] by simp

theorem mergeSkins_idempotent_witness:
  "distinct (map normalize ex_names)
   \<and> mergeSkins (fst (mergeSkins ex_fox ex_names ex_uids)) ex_names ex_uids
       = (fst (mergeSkins ex_fox ex_names ex_uids), ex_uids)
   \<and> skins (fst (mergeSkins ex_fox ex_names ex_uids))
       = [\<lparr>skin_id = ustr ''s1'', skin_name = ustr ''Foxfire'', checked = True\<rparr>,
          \<lparr>skin_id = ustr ''uid'', skin_name = ustr ''Midnight'', checked = False\<rparr>]"
proof -
  have d: "distinct (map normalize ex_names)"
    by (simp add: ex_names_def ascii_eval)
  have "skins (fst (mergeSkins ex_fox ex_names ex_uids))
       = [\<lparr>skin_id = ustr ''s1'', skin_name = ustr ''Foxfire'', checked = True\<rparr>,
          \<lparr>skin_id = ustr ''uid'', skin_name = ustr ''Midnight'', checked = False\<rparr>]"
    by (simp add: mergeSkins_placed existingByName_of_def ex_fox_def ex_names_def ex_uids_def
          ascii_eval)
  with d mergeSkins_idempotent [OF d, of ex_fox ex_uids ex_uids] show ?thesis by simp
qed

text \<open>
  C4: for each fetched name, an existing skin that normalizes to the same key is placed
  unchanged at that position, and otherwise a new, unowned skin with a fresh id; in
  particular an owned existing skin whose name is in the fetched list is still owned in
  the result. The source announces this (``keep checked states''), and it holds for a
  champion whose skins have pairwise different normalized names
  (\<open>mergeSkins_distinct_names\<close>). But \<^verbatim>\<open>addSkin\<close> accepts a name that an existing skin
  has, and of two skins with one key the lookup holds only the later one. Here the
  owned skin Foxfire has the unowned skin foxfire behind it; after a merge with the fetched
  name Foxfire the only skin is the unowned one, and the owned one is gone.
\<close>

theorem mergeSkins_earlier_twin_lost:
  "skins ex_twins ! 0 = \<lparr>skin_id = ustr ''s1'', skin_name = ustr ''Foxfire'', checked = True\<rparr>
   \<and> skins (fst (mergeSkins ex_twins [ustr ''Foxfire''] ex_uids))
       = [\<lparr>skin_id = ustr ''s2'', skin_name = ustr ''foxfire'', checked = False\<rparr>]"
  by (simp add: mergeSkins_placed existingByName_of_def ex_twins_def ascii_eval)

section \<open>The claims about \<open>addSkin\<close> and \<open>prefillChampion\<close>\<close>

text \<open>
  C8 (as stated): for every non-empty input name, \<open>addSkin\<close> appends one new skin. This
  fails for a name of white space only, which is not empty: the guard
  \<^verbatim>\<open>if (!trimmed) return\<close> tests the trimmed name, and the store stays as it is.
\<close>

theorem addSkin_whitespace_name_ignored:
  "ustr '' '' \<noteq> []
   \<and> addSkin (ustr ''champ_ahri'') (ustr '' '') [ex_empty_ahri] ex_uids = ([ex_empty_ahri], ex_uids)"
  by (simp add: addSkin_def trim_def is_space_def ustr_def)

text \<open>
  C8 (amended): for every champion id and every input name that is not empty after
  trimming, \<open>addSkin\<close> leaves the number and order of the champions as they are, appends to
  each champion of that id exactly one skin, unowned, named by the trimmed input, with the
  id that \<^verbatim>\<open>uid()\<close> returns (of the successive values \<open>g 0\<close>, \<open>g 1\<close>, and so on, the
  one numbered by the earlier champions of that id), and changes nothing else: the skins the
  champion had stay in front, and every other champion is the same.
\<close>

theorem addSkin_appends_trimmed:
  assumes "trim name \<noteq> []" and "i < length champions"
  shows "length (fst (addSkin championId name champions g)) = length champions \<and>
    fst (addSkin championId name champions g) ! i =
      (if champ_id (champions ! i) = championId
       then (champions ! i)\<lparr>skins := skins (champions ! i) @
              [\<lparr>skin_id = g (length (filter (\<lambda>c. champ_id c = championId) (take i champions))),
                skin_name = trim name, checked = False\<rparr>]\<rparr>
       else champions ! i)"
  using assms
  by (simp add: addSkin_def Let_def length_updateChampion
        updateChampion_uid_nth
          [where F = "\<lambda>c u. c\<lparr>skins := skins c
                              @ [\<lparr>skin_id = u, skin_name = trim name, checked = False\<rparr>]\<rparr>"])

theorem addSkin_appends_trimmed_witness:
  "trim (ustr '' Foxfire '') \<noteq> [] \<and> 0 < length [ex_empty_ahri]
   \<and> fst (addSkin (ustr ''champ_ahri'') (ustr '' Foxfire '') [ex_empty_ahri] ex_uids) ! 0
       = ex_empty_ahri\<lparr>skins := [\<lparr>skin_id = ex_uids 0, skin_name = ustr ''Foxfire'', checked = False\<rparr>]\<rparr>"
proof -
  have t: "trim (ustr '' Foxfire '') = ustr ''Foxfire''"
    by (simp add: trim_def is_space_def ustr_def)
  then have n: "trim (ustr '' Foxfire '') \<noteq> []" by (simp add: ustr_def)
  have l: "0 < length [ex_empty_ahri]" by simp
  from addSkin_appends_trimmed [OF n l, of "ustr ''champ_ahri''" ex_uids] t n
  show ?thesis by (simp add: ex_empty_ahri_def)
qed

text \<open>
  C9: \<open>fetchChampionSkins\<close> gives the empty list when the request fails, the status is not
  OK, the body is malformed or the document has no entry for the key; and when it gives
  the empty list, \<open>prefillChampion\<close> returns the store and the identifier source as they
  were: \<open>mergeSkins\<close> is not applied.
\<close>

theorem prefillChampion_empty_fetch_unchanged:
  "(fetch_failed (net (champion_url version DDRAGON_LOCALE key)) key
      \<longrightarrow> fetchChampionSkins net version DDRAGON_LOCALE key = [])
   \<and> (keyMap (normalize (champ_name c)) = Some key
        \<and> fetchChampionSkins net version DDRAGON_LOCALE key = []
      \<longrightarrow> prefillChampion net (Some version) (Some keyMap) c champions g = (champions, g))"
  by (simp add: fetch_failed_empty prefillChampion_def)

theorem prefillChampion_empty_fetch_unchanged_witness:
  "fetch_failed (ex_offline (champion_url (ustr ''14.1.1'') DDRAGON_LOCALE (ustr ''Ahri''))) (ustr ''Ahri'')
   \<and> ex_keyMap (normalize (champ_name ex_ahri)) = Some (ustr ''Ahri'')
   \<and> fetchChampionSkins ex_offline (ustr ''14.1.1'') DDRAGON_LOCALE (ustr ''Ahri'') = []
   \<and> prefillChampion ex_offline (Some (ustr ''14.1.1'')) (Some ex_keyMap) ex_ahri [ex_ahri] ex_uids
       = ([ex_ahri], ex_uids)"
proof -
  have f: "fetch_failed (ex_offline (champion_url (ustr ''14.1.1'') DDRAGON_LOCALE (ustr ''Ahri''))) (ustr ''Ahri'')"
    by (simp add: ex_offline_def)
  have k: "ex_keyMap (normalize (champ_name ex_ahri)) = Some (ustr ''Ahri'')"
    by (simp add: ex_keyMap_def ex_ahri_def ascii_eval)
  from prefillChampion_empty_fetch_unchanged
         [of ex_offline "ustr ''14.1.1''" "ustr ''Ahri''" ex_keyMap ex_ahri "[ex_ahri]" ex_uids] f k
  show ?thesis by simp
qed

section \<open>The claims about \<open>loadInitialChampions\<close>\<close>

text \<open>
  C6: when nothing is stored (\<^verbatim>\<open>getItem\<close> gives \<^verbatim>\<open>null\<close> or the empty string) or the
  stored text does not parse, \<open>loadInitialChampions\<close> returns, without an error, one
  entity for each entry of \<open>CHAMPION_NAMES\<close>, in that order, with the id \<open>nameToId name\<close>
  and no skins; it draws no identifier.
\<close>

theorem loadInitialChampions_fresh:
  assumes "raw = None \<or> raw = Some [] \<or> (raw = Some r \<and> JSON_parse r = None)"
  shows "loadInitialChampions JSON_parse raw g =
    (map (\<lambda>name. JObj [(ustr ''id'', JStr (nameToId name)), (ustr ''name'', JStr name),
                       (ustr ''skins'', JArr [])]) CHAMPION_NAMES, g)"
proof -
  have fresh: "fresh_champion = (\<lambda>name. JObj [(ustr ''id'', JStr (nameToId name)),
      (ustr ''name'', JStr name), (ustr ''skins'', JArr [])])"
    by (simp add: fun_eq_iff fresh_champion_def)
  from assms consider "raw = None \<or> raw = Some []"
    | "raw = Some r" "r \<noteq> []" "JSON_parse r = None"
    by auto
  then show ?thesis
  proof cases
    case 1
    then show ?thesis
      by (simp add: loadInitialChampions_def load_body_nothing_stored fresh)
  next
    case 2
    then show ?thesis
      by (simp add: loadInitialChampions_def load_body_unparseable fresh)
  qed
qed

text \<open>The stored text is there, and the parser rejects it.\<close>

theorem loadInitialChampions_fresh_witness:
  "ex_no_parse ex_raw = None
   \<and> loadInitialChampions ex_no_parse (Some ex_raw) ex_uids
       = (map fresh_champion CHAMPION_NAMES, ex_uids)
   \<and> fresh_champion (ustr ''Ahri'')
       = JObj [(ustr ''id'', JStr (ustr ''champ_ahri'')), (ustr ''name'', JStr (ustr ''Ahri'')),
               (ustr ''skins'', JArr [])]"
proof -
  have n: "ex_no_parse ex_raw = None" by (simp add: ex_no_parse_def)
  then have h: "Some ex_raw = None \<or> Some ex_raw = Some []
      \<or> (Some ex_raw = Some ex_raw \<and> ex_no_parse ex_raw = None)"
    by simp
  have fresh: "fresh_champion = (\<lambda>name. JObj [(ustr ''id'', JStr (nameToId name)),
      (ustr ''name'', JStr name), (ustr ''skins'', JArr [])])"
    by (simp add: fun_eq_iff fresh_champion_def)
  have a: "nameToId (ustr ''Ahri'') = ustr ''champ_ahri''"
    by (simp add: nameToId_def ascii_eval)
  from loadInitialChampions_fresh
         [where raw = "Some ex_raw" and r = ex_raw and JSON_parse = ex_no_parse and g = ex_uids,
          OF h] n a
  show ?thesis
    by (simp add: fresh)
qed

text \<open>
  C5 (as stated): the stored entities whose names are not canonical are appended
  shape-coerced (item ids synthesized if missing, owned flags coerced to boolean). This
  fails: \<^verbatim>\<open>merged.push(c)\<close> appends the stored value itself. The skin of the stored
  entity CustomChamp has no id and the owned flag 1, and has them after the load as well.
\<close>

theorem loadInitialChampions_custom_not_coerced:
  "last (fst (loadInitialChampions ex_parse (Some ex_raw) ex_uids)) = ex_custom
   \<and> get ex_custom (ustr ''skins'') = JArr [ex_custom_skin]
   \<and> get ex_custom_skin (ustr ''id'') = JUndefined
   \<and> get ex_custom_skin (ustr ''checked'') = JNum 1"
proof -
  have p: "ex_parse ex_raw = Some (JArr [ex_custom])" by (simp add: ex_parse_def)
  have "fst (load_body ex_parse (Some ex_raw) ex_uids) \<noteq> None"
    using ex_raw_nonempty p ex_custom_well_shaped by (rule load_body_no_exception)
  then obtain merged g' where b: "load_body ex_parse (Some ex_raw) ex_uids = (Some merged, g')"
    by (cases "load_body ex_parse (Some ex_raw) ex_uids") auto
  from load_body_array [OF ex_raw_nonempty p b] ex_custom_not_canonical
  have "drop (length CHAMPION_NAMES) merged = [ex_custom]" by simp
  then have "last merged = ex_custom"
    by (metis last_drop last.simps drop_eq_Nil not_le list.distinct(1))
  with b show ?thesis
    by (simp add: loadInitialChampions_def ex_custom_def ex_custom_skin_def ustr_eq_iff)
qed

text \<open>
  C5 (amended): for every stored document that is an array and is read without an
  exception, the result begins with one entity for each canonical name, in canonical
  order, and continues with exactly the stored entities whose names are not canonical, as
  they were stored (not coerced), in their original order. (\<open>load_body_no_exception\<close>:
  no exception arises when no entity and no element of a \<^verbatim>\<open>skins\<close> array is nullish.)
\<close>

theorem loadInitialChampions_keeps_custom_verbatim:
  assumes "r \<noteq> []" and "JSON_parse r = Some (JArr cs)"
    and "fst (load_body JSON_parse (Some r) g) \<noteq> None"
  shows "take (length CHAMPION_NAMES)
           (map (\<lambda>c. get c (ustr ''name'')) (fst (loadInitialChampions JSON_parse (Some r) g)))
         = map JStr CHAMPION_NAMES
    \<and> drop (length CHAMPION_NAMES) (fst (loadInitialChampions JSON_parse (Some r) g))
        = filter (\<lambda>c. \<not> includes_name CHAMPION_NAMES (get c (ustr ''name''))) cs"
proof -
  from assms(3) obtain merged g' where b: "load_body JSON_parse (Some r) g = (Some merged, g')"
    by (cases "load_body JSON_parse (Some r) g") auto
  from load_body_array [OF assms(1,2) b] b show ?thesis
    by (simp add: loadInitialChampions_def)
qed

theorem loadInitialChampions_keeps_custom_verbatim_witness:
  "ex_raw \<noteq> [] \<and> ex_parse ex_raw = Some (JArr [ex_custom])
   \<and> fst (load_body ex_parse (Some ex_raw) ex_uids) \<noteq> None
   \<and> drop (length CHAMPION_NAMES) (fst (loadInitialChampions ex_parse (Some ex_raw) ex_uids))
       = [ex_custom]"
proof -
  have p: "ex_parse ex_raw = Some (JArr [ex_custom])" by (simp add: ex_parse_def)
  have b: "fst (load_body ex_parse (Some ex_raw) ex_uids) \<noteq> None"
    using ex_raw_nonempty p ex_custom_well_shaped by (rule load_body_no_exception)
  from loadInitialChampions_keeps_custom_verbatim [OF ex_raw_nonempty p b]
    ex_raw_nonempty p b ex_custom_not_canonical
  show ?thesis by simp
qed

section \<open>The claim about \<open>importJson\<close>\<close>

text \<open>
  C10: whenever \<open>importJson\<close> gives a new store, it has the entities of the old one, in the
  same order, each with the id and the name it had, whatever the import document says
  (the document's ids are never read). An entity for which the document has an entity of
  the same name becomes an object of exactly these two fields and a \<^verbatim>\<open>skins\<close> field;
  every other entity is the same value as before. The \<^verbatim>\<open>skins\<close> field is the coerced
  skin array of the document's entity if that is an array, and the old \<^verbatim>\<open>skins\<close> field
  if it is not. (In the two other outcomes there is no new store: after \<open>Alerted\<close> the old
  one stays.)
\<close>

theorem importJson_keeps_id_and_name:
  assumes "JSON_parse text = Some data"
    and "index_by_name (elements data) Map.empty = Some byName"
    and "importJson JSON_parse text prev g = (Updated new, g')"
    and "i < length prev"
  shows "length new = length prev
    \<and> get (new ! i) (ustr ''id'') = get (prev ! i) (ustr ''id'')
    \<and> get (new ! i) (ustr ''name'') = get (prev ! i) (ustr ''name'')
    \<and> (if isArray (get (map_get byName (get (prev ! i) (ustr ''name''))) (ustr ''skins''))
        then \<exists>h ss h'.
               coerce_skins
                 (elements (get (map_get byName (get (prev ! i) (ustr ''name''))) (ustr ''skins''))) h
                 = (Some ss, h')
               \<and> get (new ! i) (ustr ''skins'') = JArr ss
        else get (new ! i) (ustr ''skins'') = get (prev ! i) (ustr ''skins''))
    \<and> (if truthy (map_get byName (get (prev ! i) (ustr ''name'')))
        then \<exists>ss. new ! i = JObj [(ustr ''id'', get (prev ! i) (ustr ''id'')),
                                 (ustr ''name'', get (prev ! i) (ustr ''name'')),
                                 (ustr ''skins'', ss)]
        else new ! i = prev ! i)"
proof -
  from assms(1-3) have "import_update byName prev g = (Some new, g')"
    by (simp add: importJson_def split: if_splits prod.splits option.splits)
  from import_update_entries [OF this] assms(4) obtain h h' where
    l: "length new = length prev" and
    e: "import_entry byName (prev ! i) h = (Some (new ! i), h')"
    by blast
  show ?thesis
    by (rule conjI [OF l import_entry_result [OF e]])
qed

theorem importJson_keeps_id_and_name_witness:
  "ex_import_parse ex_import_text = Some ex_import_doc
   \<and> index_by_name (elements ex_import_doc) Map.empty
       = Some [JStr (ustr ''Ahri'') \<mapsto> ex_import_ahri, JStr (ustr ''Akali'') \<mapsto> ex_import_akali]
   \<and> fst (importJson ex_import_parse ex_import_text ex_store ex_uids) = Updated ex_imported
   \<and> 1 < length ex_store
   \<and> get (ex_imported ! 1) (ustr ''id'') = get (ex_store ! 1) (ustr ''id'')
   \<and> get (ex_imported ! 1) (ustr ''name'') = get (ex_store ! 1) (ustr ''name'')
   \<and> get ex_import_akali (ustr ''id'') = JStr (ustr ''another'')
   \<and> get (ex_store ! 1) (ustr ''id'') = JStr (ustr ''champ_akali'')
   \<and> ex_imported ! 0 = ex_store ! 0"
proof -
  have p: "ex_import_parse ex_import_text = Some ex_import_doc"
    by (simp add: ex_import_parse_def)
  have x: "index_by_name (elements ex_import_doc) Map.empty
       = Some [JStr (ustr ''Ahri'') \<mapsto> ex_import_ahri, JStr (ustr ''Akali'') \<mapsto> ex_import_akali]"
    by (simp add: ex_import_doc_def ex_import_ahri_def ex_import_akali_def key_neq)
  have f: "fst (importJson ex_import_parse ex_import_text ex_store ex_uids) = Updated ex_imported"
    by (simp add: importJson_def p x)
       (simp add: ex_import_doc_def ex_import_ahri_def ex_import_akali_def ex_store_def
          ex_store_ahri_def ex_imported_def import_entry_def uid_def key_neq ustr_eq_iff)
  then have u: "importJson ex_import_parse ex_import_text ex_store ex_uids
      = (Updated ex_imported, snd (importJson ex_import_parse ex_import_text ex_store ex_uids))"
    by (metis prod.collapse)
  have l: "1 < length ex_store" by (simp add: ex_store_def)
  from importJson_keeps_id_and_name [OF p x u l] p x f l show ?thesis
    by (simp add: ex_import_akali_def ex_store_def ex_imported_def key_neq)
qed

end
